theory Spec2Isabelle
  imports Complex_Main
begin

section \<open>Browser values shared by both views\<close>

text \<open>
  A rejected promise carries the message of the thrown \<open>Error\<close> (\<open>Inl\<close>); a fulfilled one
  carries its value (\<open>Inr\<close>). A blob is the sequence of its bytes.
\<close>

type_synonym blob = string
type_synonym 'a promise = "string + 'a"

text \<open>Template literals print a number in decimal.\<close>

fun string_of_nat :: "nat \<Rightarrow> string" where
  "string_of_nat n =
     (if n < 10 then [char_of (48 + n)]
      else string_of_nat (n div 10) @ [char_of (48 + n mod 10)])"

declare string_of_nat.simps [simp del]

text \<open>
  What \<open>fetch\<close> resolves to: the status line and the outcome of \<open>response.json()\<close>.
  \<open>response.ok\<close> is true for the statuses 200 to 299. \<open>fetch\<close> itself rejects on a
  network failure.
\<close>

record 'a http_response =
  status :: nat
  statusText :: string
  json :: "'a promise"

definition ok :: "'a http_response \<Rightarrow> bool" where
  "ok response = (200 \<le> status response \<and> status response \<le> 299)"

text \<open>
  Media streams live in a store indexed by their handle; a stream is the list of its
  tracks, each live (\<open>True\<close>) or ended. \<open>track.stop()\<close> ends a track for good.
  \<open>getUserMedia\<close> either rejects or hands out a fresh stream of live tracks.
\<close>

type_synonym stream = "bool list"

definition stopTracks :: "nat \<Rightarrow> stream list \<Rightarrow> stream list" where
  "stopTracks h store = store[h := map (\<lambda>track. False) (store ! h)]"

definition stream_active :: "stream \<Rightarrow> bool" where
  "stream_active tracks = (True \<in> set tracks)"

definition active_streams :: "stream list \<Rightarrow> nat list" where
  "active_streams store = filter (\<lambda>h. stream_active (store ! h)) [0..<length store]"

section \<open>The attendance view (FaceAttendance)\<close>

record AttendanceRecord =
  userId :: string
  timestamp :: string
  confidenceScore :: real

record VerifyResponse =
  verified :: bool
  user_id :: string
  confidence_score :: real
  message :: "string option"

datatype toast = ToastSuccess string | ToastError "string option"

text \<open>
  The component state (\<open>useState\<close> and \<open>useRef\<close> cells) together with the part of the
  browser it acts on: the stream store, the armed interval timers, the toasts shown and the
  number of \<open>/verify\<close> requests that were issued and have not settled yet. \<open>videoRef\<close> is
  \<open>None\<close> while no video element is mounted, otherwise \<open>Some\<close> of its \<open>srcObject\<close>.
  An async function that is suspended at an \<open>await\<close> is part of the state too:
  \<open>pausing\<close> counts the calls of \<open>startAttendance\<close> that sit in the 100 ms pause,
  \<open>acquiring\<close> the calls of \<open>startCamera\<close> that wait for \<open>getUserMedia\<close>, and
  \<open>onloadeddata\<close> says that the mounted video element carries the handler of a call of
  \<open>startAttendance\<close> that waits for the first frame.
\<close>

record attendance =
  isCapturing :: bool
  attendanceLog :: "AttendanceRecord list"
  error :: "string option"
  processing :: bool
  videoRef :: "nat option option"
  streamRef :: "nat option"
  intervalRef :: "nat option"
  streams :: "stream list"
  timers :: "nat list"
  nextTimer :: nat
  toasts :: "toast list"
  inFlight :: nat
  pausing :: nat
  acquiring :: nat
  onloadeddata :: bool

definition initial :: attendance where
  "initial = \<lparr> isCapturing = False, attendanceLog = [], error = None, processing = False,
     videoRef = None, streamRef = None, intervalRef = None, streams = [], timers = [],
     nextTimer = 1, toasts = [], inFlight = 0, pausing = 0, acquiring = 0,
     onloadeddata = False \<rparr>"

text \<open>
  The video element is rendered exactly while \<open>isCapturing\<close> holds. An element that leaves
  the view takes its \<open>onloadeddata\<close> handler with it; a new element has none.
\<close>

definition render :: "attendance \<Rightarrow> attendance" where
  "render s =
     (if isCapturing s
      then (case videoRef s of None \<Rightarrow> s\<lparr>videoRef := Some None\<rparr> | Some src \<Rightarrow> s)
      else s\<lparr>videoRef := None, onloadeddata := False\<rparr>)"

text \<open>
  \<open>startCamera\<close> suspends once, at \<open>await getUserMedia\<close>. \<open>startCamera_begin\<close> is the part
  before the suspension and \<open>startCamera_settle\<close> the part after it, run when the request for
  the camera settles: the stream handle is stored before the video element is looked at, and
  every error is caught inside the function and turned into the error banner.
\<close>

definition startCamera_begin :: "attendance \<Rightarrow> attendance" where
  "startCamera_begin s = s\<lparr>error := None, acquiring := Suc (acquiring s)\<rparr>"

definition startCamera_settle :: "nat promise \<Rightarrow> attendance \<Rightarrow> attendance" where
  "startCamera_settle gum s =
     (case gum of
        Inl msg \<Rightarrow> s\<lparr>error := Some (''Could not access camera: '' @ msg)\<rparr>
      | Inr n \<Rightarrow>
          (let h = length (streams s);
               s2 = s\<lparr>streams := streams s @ [replicate n True], streamRef := Some h\<rparr>
           in case videoRef s2 of
                None \<Rightarrow> s2\<lparr>error := Some (''Could not access camera: '' @ ''Video element not available'')\<rparr>
              | Some src \<Rightarrow> s2\<lparr>videoRef := Some (Some h)\<rparr>))"

definition stopCamera :: "attendance \<Rightarrow> attendance" where
  "stopCamera s =
     (let s1 = (case streamRef s of
                  Some h \<Rightarrow> s\<lparr>streams := stopTracks h (streams s), streamRef := None\<rparr>
                | None \<Rightarrow> s)
      in case videoRef s1 of
           Some src \<Rightarrow> s1\<lparr>videoRef := Some None\<rparr>
         | None \<Rightarrow> s1)"

text \<open>
  \<open>captureFrame\<close> yields no image when the video element or the drawing context is missing;
  otherwise it yields whatever \<open>canvas.toBlob\<close> produces. The canvas is always mounted.
\<close>

definition captureFrame :: "bool \<Rightarrow> blob option \<Rightarrow> attendance \<Rightarrow> blob option" where
  "captureFrame context encoded s =
     (case videoRef s of None \<Rightarrow> None | Some src \<Rightarrow> if \<not> context then None else encoded)"

text \<open>
  \<open>sendFrameToBackend\<close> suspends once, at \<open>await fetch\<close>. \<open>sendFrame_issue\<close> is the part
  before the suspension, \<open>sendFrame_settle\<close> the part after it, run when the request settles.
\<close>

definition sendFrame_issue :: "attendance \<Rightarrow> attendance" where
  "sendFrame_issue s = s\<lparr>processing := True, inFlight := Suc (inFlight s)\<rparr>"

definition sendFrame_catch :: "string \<Rightarrow> attendance \<Rightarrow> bool \<times> attendance" where
  "sendFrame_catch msg s =
     (False, s\<lparr>processing := False, error := Some (''Error verifying face: '' @ msg)\<rparr>)"

definition sendFrame_settle ::
  "string \<Rightarrow> VerifyResponse http_response promise \<Rightarrow> attendance \<Rightarrow> bool \<times> attendance" where
  "sendFrame_settle now fetched s =
     (case fetched of
        Inl msg \<Rightarrow> sendFrame_catch msg s
      | Inr response \<Rightarrow>
          if \<not> ok response
          then sendFrame_catch (''Server responded with '' @ string_of_nat (status response)) s
          else (case json response of
                  Inl msg \<Rightarrow> sendFrame_catch msg s
                | Inr data \<Rightarrow>
                    (let s1 = s\<lparr>processing := False\<rparr> in
                     if verified data
                     then (True,
                           s1\<lparr>toasts := toasts s1 @
                                 [ToastSuccess (''Successfully recorded attendance for '' @ user_id data)],
                              attendanceLog :=
                                 \<lparr>userId = user_id data, timestamp = now,
                                  confidenceScore = confidence_score data\<rparr> # attendanceLog s1\<rparr>)
                     else (False, s1\<lparr>toasts := toasts s1 @ [ToastError (message data)]\<rparr>))))"

definition stopAttendance :: "attendance \<Rightarrow> attendance" where
  "stopAttendance s =
     (let s1 = stopCamera (s\<lparr>isCapturing := False\<rparr>) in
      case intervalRef s1 of
        None \<Rightarrow> s1
      | Some t \<Rightarrow> if t = 0 then s1
                  else s1\<lparr>timers := removeAll t (timers s1), intervalRef := None\<rparr>)"

definition setInterval :: "attendance \<Rightarrow> attendance" where
  "setInterval s =
     s\<lparr>timers := nextTimer s # timers s, intervalRef := Some (nextTimer s),
       nextTimer := Suc (nextTimer s)\<rparr>"

text \<open>
  \<open>startAttendance\<close> suspends three times: in the 100 ms pause, in \<open>await startCamera()\<close>
  and, when a video element is mounted whose \<open>readyState\<close> is below 2, in the wait for
  \<open>loadeddata\<close>. The Stop button is on the screen all that time. Nothing inside the
  \<open>try\<close> block throws (\<open>startCamera\<close> catches its own errors), so the \<open>catch\<close> branch is
  never entered.

  \<open>startAttendance_click\<close> is the part up to the pause. \<open>pause_elapsed\<close> resumes one
  paused call and takes it into \<open>startCamera\<close>. \<open>media_settled\<close> resumes one call that
  waits for the camera, finishes \<open>startCamera\<close> and goes on in \<open>startAttendance\<close>: with
  no video element mounted the timer is armed at once; with an element that already has
  data (\<open>ready\<close>, which needs a source) likewise; otherwise the call leaves its handler in
  \<open>onloadeddata\<close> and waits. \<open>loaded_data\<close> is the element's \<open>loadeddata\<close> event, which
  only an element with a source fires: the waiting call arms the timer.
\<close>

definition startAttendance_click :: "attendance \<Rightarrow> attendance" where
  "startAttendance_click s =
     (if isCapturing s then s
      else s\<lparr>isCapturing := True, pausing := Suc (pausing s)\<rparr>)"

definition pause_elapsed :: "attendance \<Rightarrow> attendance" where
  "pause_elapsed s =
     (if pausing s = 0 then s
      else startCamera_begin (s\<lparr>pausing := pausing s - 1\<rparr>))"

definition startAttendance_wait :: "bool \<Rightarrow> attendance \<Rightarrow> attendance" where
  "startAttendance_wait ready s =
     (case videoRef s of
        None \<Rightarrow> setInterval s
      | Some None \<Rightarrow> s\<lparr>onloadeddata := True\<rparr>
      | Some (Some h) \<Rightarrow> if ready then setInterval s else s\<lparr>onloadeddata := True\<rparr>)"

definition media_settled :: "nat promise \<Rightarrow> bool \<Rightarrow> attendance \<Rightarrow> attendance" where
  "media_settled gum ready s =
     (if acquiring s = 0 then s
      else startAttendance_wait ready
             (startCamera_settle gum (s\<lparr>acquiring := acquiring s - 1\<rparr>)))"

definition loaded_data :: "attendance \<Rightarrow> attendance" where
  "loaded_data s =
     (case videoRef s of
        Some (Some h) \<Rightarrow> if onloadeddata s then setInterval (s\<lparr>onloadeddata := False\<rparr>) else s
      | _ \<Rightarrow> s)"

text \<open>
  A start that no other event disturbs: \<open>startAttendance\<close> running through its three
  suspensions with only the re-render of the view in between; \<open>loaded\<close> says whether the
  bound stream ever delivers a frame. An element without a stream never fires
  \<open>loadeddata\<close>, so after a failed camera start the call stays suspended and the timer is
  never armed.
\<close>

definition startAttendance :: "nat promise \<Rightarrow> bool \<Rightarrow> attendance \<Rightarrow> attendance" where
  "startAttendance gum loaded s =
     (if isCapturing s then s
      else
        (let s1 = render (startAttendance_click s);
             s2 = pause_elapsed s1;
             s3 = media_settled gum False s2
         in if loaded then loaded_data s3 else s3))"

text \<open>
  The interval callback. \<open>tick_fire\<close> runs when the timer fires: it captures a frame and,
  if there is one, issues the request; with no frame \<open>sendFrameToBackend\<close> returns
  \<open>false\<close> at once. \<open>tick_settle\<close> is the rest of the callback, run when the request
  settles.
\<close>

definition tick_fire :: "bool \<Rightarrow> blob option \<Rightarrow> attendance \<Rightarrow> attendance" where
  "tick_fire context encoded s =
     (case captureFrame context encoded s of
        None \<Rightarrow> s
      | Some frame \<Rightarrow> sendFrame_issue s)"

definition tick_settle ::
  "string \<Rightarrow> VerifyResponse http_response promise \<Rightarrow> attendance \<Rightarrow> attendance" where
  "tick_settle now fetched s =
     (case sendFrame_settle now fetched s of
        (True, s1) \<Rightarrow> stopAttendance s1
      | (False, s1) \<Rightarrow> s1)"

text \<open>
  The events of the view: the two buttons, the resumptions of a suspended
  \<open>startAttendance\<close>, the timer and the network. A timer fires only while it is armed; a
  request settles only while one is in flight. The browser fires an armed timer every
  2000 ms whether or not an earlier callback is still suspended. After every event the view
  is rendered again.
\<close>

datatype event =
    StartClicked
  | PauseElapsed
  | MediaSettled "nat promise" bool
  | LoadedData
  | StopAttendance
  | TimerFire nat bool "blob option"
  | FetchSettled string "VerifyResponse http_response promise"

fun step :: "event \<Rightarrow> attendance \<Rightarrow> attendance" where
  "step StartClicked s = render (startAttendance_click s)"
| "step PauseElapsed s = render (pause_elapsed s)"
| "step (MediaSettled gum ready) s = render (media_settled gum ready s)"
| "step LoadedData s = render (loaded_data s)"
| "step StopAttendance s = render (stopAttendance s)"
| "step (TimerFire t context encoded) s =
     render (if t \<in> set (timers s) then tick_fire context encoded s else s)"
| "step (FetchSettled now fetched) s =
     render (if inFlight s = 0 then s
             else tick_settle now fetched (s\<lparr>inFlight := inFlight s - 1\<rparr>))"

fun run :: "event list \<Rightarrow> attendance \<Rightarrow> attendance" where
  "run [] s = s"
| "run (e # es) s = run es (step e s)"

section \<open>The registration view (FaceRegister)\<close>

text \<open>
  Names that the attendance view already uses carry the suffix \<open>_reg\<close> here; \<open>id\<close> is
  \<open>image_id\<close> and the fields of \<open>MessageState\<close> are \<open>msg_text\<close> and \<open>msg_type\<close>.
\<close>

record CapturedImage =
  image_id :: nat
  blob :: blob
  url :: string

datatype message_type = ErrorMsg | SuccessMsg | InfoMsg | NoMsg

record MessageState =
  msg_text :: string
  msg_type :: message_type

record VerificationResult =
  result_verified :: bool
  result_user_id :: "string option"
  result_confidence_score :: "real option"

datatype facing = User | Environment

text \<open>The multipart body of one \<open>POST /register\<close>: the field \<open>id\<close> and the file part.\<close>

record register_request =
  form_id :: string
  imageFile :: blob
  filename :: string

text \<open>
  The component state and the browser state it acts on: the stream store, the object URLs
  that \<open>URL.createObjectURL\<close> has handed out and that were not revoked since, a counter that
  makes those URLs fresh, the number of \<open>canvas.toBlob\<close> calls of \<open>captureImage\<close> whose
  callback has not run yet, the \<open>/register\<close> requests issued so far, and the number of
  calls of \<open>startCamera\<close> that are suspended at \<open>await getUserMedia\<close>.
\<close>

record registration =
  userId_reg :: string
  capturedImages :: "CapturedImage list"
  isLoading :: bool
  stremLoaded :: bool
  message_reg :: MessageState
  verificationResult :: "VerificationResult option"
  facingMode :: facing
  videoStreamRef :: "nat option"
  videoRef_reg :: "nat option option"
  streams_reg :: "stream list"
  objectURLs :: "string list"
  urlCount :: nat
  toBlobPending :: nat
  registerRequests :: "register_request list"
  acquiring_reg :: nat

text \<open>The view right after its first render: the video element is always mounted.\<close>

definition initial_reg :: registration where
  "initial_reg = \<lparr> userId_reg = [], capturedImages = [], isLoading = False, stremLoaded = False,
     message_reg = \<lparr>msg_text = [], msg_type = NoMsg\<rparr>, verificationResult = None,
     facingMode = User, videoStreamRef = None, videoRef_reg = Some None, streams_reg = [],
     objectURLs = [], urlCount = 0, toBlobPending = 0, registerRequests = [],
     acquiring_reg = 0 \<rparr>"

text \<open>\<open>stopCamera\<close> stops the tracks but keeps the handle in \<open>videoStreamRef\<close>.\<close>

definition stopCamera_reg :: "registration \<Rightarrow> registration" where
  "stopCamera_reg s =
     (let s1 = (case videoStreamRef s of
                  Some h \<Rightarrow> s\<lparr>streams_reg := stopTracks h (streams_reg s)\<rparr>
                | None \<Rightarrow> s);
          s2 = s1\<lparr>stremLoaded := False\<rparr>
      in case videoRef_reg s2 of
           Some src \<Rightarrow> s2\<lparr>videoRef_reg := Some None\<rparr>
         | None \<Rightarrow> s2)"

text \<open>
  \<open>startCamera\<close> suspends once, at \<open>await getUserMedia\<close>: the stream held before is
  stopped before the suspension (\<open>startCamera_reg_begin\<close>), the new stream is stored after
  it (\<open>startCamera_reg_settle\<close>). \<open>camera_settled\<close> resumes one suspended call.
\<close>

definition startCamera_reg_begin :: "registration \<Rightarrow> registration" where
  "startCamera_reg_begin s =
     (let s1 = (case videoStreamRef s of Some h \<Rightarrow> stopCamera_reg s | None \<Rightarrow> s)
      in s1\<lparr>acquiring_reg := Suc (acquiring_reg s1)\<rparr>)"

definition startCamera_reg_settle :: "nat promise \<Rightarrow> registration \<Rightarrow> registration" where
  "startCamera_reg_settle gum s =
     (case gum of
        Inl msg \<Rightarrow>
          s\<lparr>message_reg := \<lparr>msg_text = ''Camera access error: '' @ msg @
                                ''. Please grant camera permissions.'',
                              msg_type = ErrorMsg\<rparr>\<rparr>
      | Inr n \<Rightarrow>
          (let h = length (streams_reg s);
               s2 = s\<lparr>streams_reg := streams_reg s @ [replicate n True],
                      videoStreamRef := Some h, stremLoaded := True\<rparr>
           in case videoRef_reg s2 of
                Some src \<Rightarrow> s2\<lparr>videoRef_reg := Some (Some h)\<rparr>
              | None \<Rightarrow> s2))"

definition camera_settled :: "nat promise \<Rightarrow> registration \<Rightarrow> registration" where
  "camera_settled gum s =
     (if acquiring_reg s = 0 then s
      else startCamera_reg_settle gum (s\<lparr>acquiring_reg := acquiring_reg s - 1\<rparr>))"

text \<open>
  \<open>toggleCamera\<close> flips the facing mode; the effect that depends on it then runs its cleanup
  (\<open>stopCamera\<close>) and calls \<open>startCamera\<close> again. The button is not disabled while a
  camera request is pending.
\<close>

definition toggleCamera :: "registration \<Rightarrow> registration" where
  "toggleCamera s =
     startCamera_reg_begin
       (stopCamera_reg (s\<lparr>facingMode := (if facingMode s = User then Environment else User)\<rparr>))"

text \<open>
  \<open>captureImage\<close> checks the cap, draws the frame and calls \<open>canvas.toBlob\<close>, which returns
  at once; the image is appended later, by the callback \<open>toBlob_callback\<close>. The callback
  gets the encoded blob (or \<open>null\<close>) and reads \<open>Date.now()\<close>. Object URLs are numbered in
  the order of their creation.
\<close>

definition captureImage :: "bool \<Rightarrow> registration \<Rightarrow> registration" where
  "captureImage context s =
     (if length (capturedImages s) \<ge> 10
      then s\<lparr>message_reg := \<lparr>msg_text = ''Maximum number of images (10) reached'',
                               msg_type = ErrorMsg\<rparr>\<rparr>
      else (case videoRef_reg s of
              None \<Rightarrow> s
            | Some src \<Rightarrow> if \<not> context then s else s\<lparr>toBlobPending := Suc (toBlobPending s)\<rparr>))"

definition createObjectURL :: "registration \<Rightarrow> string \<times> registration" where
  "createObjectURL s =
     (''blob:'' @ string_of_nat (urlCount s),
      s\<lparr>objectURLs := objectURLs s @ [''blob:'' @ string_of_nat (urlCount s)],
        urlCount := Suc (urlCount s)\<rparr>)"

definition toBlob_callback :: "blob option \<Rightarrow> nat \<Rightarrow> registration \<Rightarrow> registration" where
  "toBlob_callback encoded now s =
     (case encoded of
        None \<Rightarrow> s
      | Some b \<Rightarrow>
          (case createObjectURL s of
             (u, s1) \<Rightarrow>
               s1\<lparr>capturedImages := capturedImages s1 @ [\<lparr>image_id = now, blob = b, url = u\<rparr>],
                  message_reg := \<lparr>msg_text = ''Image captured successfully'',
                                   msg_type = SuccessMsg\<rparr>\<rparr>))"

definition removeImage :: "nat \<Rightarrow> registration \<Rightarrow> registration" where
  "removeImage imageId s =
     s\<lparr>capturedImages := filter (\<lambda>img. image_id img \<noteq> imageId) (capturedImages s)\<rparr>"

text \<open>
  \<open>String.prototype.trim\<close> strips white space and line terminators from both ends. The
  characters of the model are the code units below 256; of those TAB, LF, VT, FF, CR, SPACE
  and NBSP are stripped.
\<close>

definition whitespace :: "char \<Rightarrow> bool" where
  "whitespace c = (of_char c \<in> {9, 10, 11, 12, 13, 32, 160 :: nat})"

definition trim :: "string \<Rightarrow> string" where
  "trim str = rev (dropWhile whitespace (rev (dropWhile whitespace str)))"

text \<open>
  One element of the \<open>map\<close> in \<open>registerUser\<close>, after its \<open>fetch\<close> has settled: the promise
  of the callback rejects when the request failed, when the status is not 2xx or when the body
  cannot be read.
\<close>

definition submitImage :: "string http_response promise \<Rightarrow> string promise" where
  "submitImage fetched =
     (case fetched of
        Inl msg \<Rightarrow> Inl msg
      | Inr response \<Rightarrow>
          if \<not> ok response then Inl (''Registration failed: '' @ statusText response)
          else json response)"

text \<open>
  \<open>Promise.all\<close> over promises given with the time at which each settles: fulfilled with
  all values when none rejects, otherwise rejected with the reason of the rejection that comes
  first in time (the earlier position wins a tie).
\<close>

fun first_rejection :: "(nat \<times> 'a promise) list \<Rightarrow> (nat \<times> string) option" where
  "first_rejection [] = None"
| "first_rejection ((t, Inr v) # ps) = first_rejection ps"
| "first_rejection ((t, Inl e) # ps) =
     (case first_rejection ps of
        None \<Rightarrow> Some (t, e)
      | Some (t', e') \<Rightarrow> if t' < t then Some (t', e') else Some (t, e))"

fun fulfilled :: "(nat \<times> 'a promise) list \<Rightarrow> 'a list" where
  "fulfilled [] = []"
| "fulfilled ((t, Inr v) # ps) = v # fulfilled ps"
| "fulfilled ((t, Inl e) # ps) = fulfilled ps"

definition promise_all :: "(nat \<times> 'a promise) list \<Rightarrow> 'a list promise" where
  "promise_all ps =
     (case first_rejection ps of Some (t, e) \<Rightarrow> Inl e | None \<Rightarrow> Inr (fulfilled ps))"

text \<open>
  \<open>registerUser\<close>. \<open>net i\<close> is what the network does with the request for the \<open>i\<close>-th
  pending image: when it settles and how. All requests are issued before any is awaited.
  The function reads \<open>userId\<close> and \<open>capturedImages\<close> as they were when it was called
  and writes only \<open>message\<close> and \<open>isLoading\<close>.
\<close>

definition register_form :: "string \<Rightarrow> CapturedImage \<Rightarrow> register_request" where
  "register_form uid img =
     \<lparr>form_id = uid, imageFile = blob img,
      filename = ''face_'' @ string_of_nat (image_id img) @ ''.jpg''\<rparr>"

definition registerUser ::
  "(nat \<Rightarrow> nat \<times> string http_response promise) \<Rightarrow> registration \<Rightarrow> registration" where
  "registerUser net s =
     (if trim (userId_reg s) = []
      then s\<lparr>message_reg := \<lparr>msg_text = ''Please enter a user ID'', msg_type = ErrorMsg\<rparr>\<rparr>
      else if length (capturedImages s) = 0
      then s\<lparr>message_reg := \<lparr>msg_text = ''Please capture at least one image'',
                               msg_type = ErrorMsg\<rparr>\<rparr>
      else
        (let s1 = s\<lparr>isLoading := True,
                     message_reg := \<lparr>msg_text = ''Registering user...'', msg_type = InfoMsg\<rparr>\<rparr>;
             s2 = s1\<lparr>registerRequests := registerRequests s1 @
                        map (register_form (userId_reg s)) (capturedImages s)\<rparr>;
             settled = map (\<lambda>i. (fst (net i), submitImage (snd (net i))))
                         [0..<length (capturedImages s)];
             s3 = (case promise_all settled of
                     Inr bodies \<Rightarrow>
                       s2\<lparr>message_reg :=
                            \<lparr>msg_text = ''User '' @ userId_reg s @ '' registered successfully with '' @
                                        string_of_nat (length (capturedImages s)) @ '' images'',
                             msg_type = SuccessMsg\<rparr>\<rparr>
                   | Inl msg \<Rightarrow>
                       s2\<lparr>message_reg := \<lparr>msg_text = ''Error: '' @ msg, msg_type = ErrorMsg\<rparr>\<rparr>)
         in s3\<lparr>isLoading := False\<rparr>))"

text \<open>\<open>verifyFace\<close>: a single capture and a single \<open>POST /verify\<close>.\<close>

definition verifyFace_catch :: "string \<Rightarrow> registration \<Rightarrow> registration" where
  "verifyFace_catch msg s =
     s\<lparr>message_reg := \<lparr>msg_text = ''Error: '' @ msg, msg_type = ErrorMsg\<rparr>,
       verificationResult := None\<rparr>"

definition verifyFace ::
  "bool \<Rightarrow> blob option \<Rightarrow> VerificationResult http_response promise \<Rightarrow>
   registration \<Rightarrow> registration" where
  "verifyFace context encoded fetched s =
     (if videoStreamRef s = None
      then s\<lparr>message_reg := \<lparr>msg_text = ''Camera not available'', msg_type = ErrorMsg\<rparr>\<rparr>
      else
        (let s1 = s\<lparr>isLoading := True,
                     message_reg := \<lparr>msg_text = ''Verifying...'', msg_type = InfoMsg\<rparr>\<rparr>;
             s2 = (case videoRef_reg s1 of
                     None \<Rightarrow> s1
                   | Some src \<Rightarrow>
                       if \<not> context then s1
                       else (case encoded of
                               None \<Rightarrow> verifyFace_catch ''Failed to capture image for verification'' s1
                             | Some b \<Rightarrow>
                                 (case fetched of
                                    Inl msg \<Rightarrow> verifyFace_catch msg s1
                                  | Inr response \<Rightarrow>
                                      if \<not> ok response
                                      then verifyFace_catch
                                             (''Verification failed: '' @ statusText response) s1
                                      else (case json response of
                                              Inl msg \<Rightarrow> verifyFace_catch msg s1
                                            | Inr result \<Rightarrow>
                                                s1\<lparr>verificationResult := Some result,
                                                   message_reg :=
                                                     (if result_verified result
                                                      then \<lparr>msg_text = ''Verification successful! User: '' @
                                                               (case result_user_id result of
                                                                  None \<Rightarrow> ''undefined''
                                                                | Some u \<Rightarrow> u),
                                                            msg_type = SuccessMsg\<rparr>
                                                      else \<lparr>msg_text = ''Verification failed'',
                                                            msg_type = ErrorMsg\<rparr>)\<rparr>))))
         in s2\<lparr>isLoading := False\<rparr>))"

definition resetForm :: "registration \<Rightarrow> registration" where
  "resetForm s =
     s\<lparr>userId_reg := [], capturedImages := [],
       message_reg := \<lparr>msg_text = [], msg_type = NoMsg\<rparr>, verificationResult := None\<rparr>"

definition setUserId :: "string \<Rightarrow> registration \<Rightarrow> registration" where
  "setUserId v s = s\<lparr>userId_reg := v\<rparr>"

text \<open>
  The events of the view: the mount and unmount of the component (the effect, which calls
  \<open>startCamera\<close>, and its cleanup), the answer to a pending camera request, the handlers,
  and the \<open>toBlob\<close> callback, which runs only while a \<open>toBlob\<close> call is outstanding.
\<close>

datatype reg_event =
    Mount
  | Unmount
  | ToggleCamera
  | CameraSettled "nat promise"
  | SetUserId string
  | CaptureImage bool
  | ToBlobDone "blob option" nat
  | RemoveImage nat
  | RegisterUser "nat \<Rightarrow> nat \<times> string http_response promise"
  | VerifyFace bool "blob option" "VerificationResult http_response promise"
  | ResetForm

fun step_reg :: "reg_event \<Rightarrow> registration \<Rightarrow> registration" where
  "step_reg Mount s = startCamera_reg_begin s"
| "step_reg Unmount s = stopCamera_reg s"
| "step_reg ToggleCamera s = toggleCamera s"
| "step_reg (CameraSettled gum) s = camera_settled gum s"
| "step_reg (SetUserId v) s = setUserId v s"
| "step_reg (CaptureImage context) s = captureImage context s"
| "step_reg (ToBlobDone encoded now) s =
     (if toBlobPending s = 0 then s
      else toBlob_callback encoded now (s\<lparr>toBlobPending := toBlobPending s - 1\<rparr>))"
| "step_reg (RemoveImage imageId) s = removeImage imageId s"
| "step_reg (RegisterUser net) s = registerUser net s"
| "step_reg (VerifyFace context encoded fetched) s = verifyFace context encoded fetched s"
| "step_reg ResetForm s = resetForm s"

fun run_reg :: "reg_event list \<Rightarrow> registration \<Rightarrow> registration" where
  "run_reg [] s = s"
| "run_reg (e # es) s = run_reg es (step_reg e s)"

section \<open>States and invariants\<close>

text \<open>
  The two states of the poller. It is capturing on timer \<open>t\<close> when the flag is set, the
  timer is armed and remembered in \<open>intervalRef\<close>, and the video element is mounted; it is
  idle when the flag is clear, no timer is remembered and no stream is held.
\<close>

definition capturing :: "attendance \<Rightarrow> nat \<Rightarrow> bool" where
  "capturing s t =
     (isCapturing s \<and> intervalRef s = Some t \<and> t \<noteq> 0 \<and> t \<in> set (timers s) \<and>
      videoRef s \<noteq> None)"

definition idle :: "attendance \<Rightarrow> bool" where
  "idle s = (\<not> isCapturing s \<and> intervalRef s = None \<and> streamRef s = None)"

text \<open>Every pending image has its preview URL among the allocated object URLs.\<close>

definition urls_allocated :: "registration \<Rightarrow> bool" where
  "urls_allocated s = (url ` set (capturedImages s) \<subseteq> set (objectURLs s))"

section \<open>Sample inputs\<close>

text \<open>
  Concrete states, responses and event sequences on which the definitions are run: a poller
  that has just started, a video element mounted without a stream, replies of the
  verification endpoint, and registration views with pending images.
\<close>

definition capturing_state :: attendance where
  "capturing_state = startAttendance (Inr 1) True initial"

definition stop_during_pause :: "event list" where
  "stop_during_pause =
     [StartClicked, StopAttendance, PauseElapsed, MediaSettled (Inr 1) False,
      StartClicked, PauseElapsed, MediaSettled (Inr 1) False, LoadedData]"

definition double_toggle :: "reg_event list" where
  "double_toggle =
     [Mount, CameraSettled (Inr 1), ToggleCamera, ToggleCamera,
      CameraSettled (Inr 1), CameraSettled (Inr 1)]"

definition response_500 :: "VerifyResponse http_response" where
  "response_500 = \<lparr>status = 500, statusText = ''Internal Server Error'', json = Inl ''no body''\<rparr>"

definition reply :: "VerifyResponse \<Rightarrow> VerifyResponse http_response promise" where
  "reply data = Inr \<lparr>status = 200, statusText = ''OK'', json = Inr data\<rparr>"

definition no_match :: VerifyResponse where
  "no_match = \<lparr>verified = False, user_id = [], confidence_score = 0,
     message = Some ''Face not recognised''\<rparr>"

definition match_u1 :: VerifyResponse where
  "match_u1 = \<lparr>verified = True, user_id = ''u1'', confidence_score = 9 / 10, message = None\<rparr>"

definition mounted :: registration where
  "mounted = run_reg [Mount, CameraSettled (Inr 1)] initial_reg"

definition captures :: "nat \<Rightarrow> reg_event list" where
  "captures n =
     concat (map (\<lambda>i. [CaptureImage True, ToBlobDone (Some ''jpeg'') (1000 + i)]) [0..<n])"

definition nine_images :: registration where
  "nine_images = run_reg (captures 9) mounted"

definition two_images :: registration where
  "two_images = run_reg (SetUserId ''u1'' # captures 2) mounted"

definition same_millisecond :: registration where
  "same_millisecond =
     run_reg [CaptureImage True, CaptureImage True,
              ToBlobDone (Some ''first'') 2000, ToBlobDone (Some ''second'') 2000] mounted"

definition all_accepted :: "nat \<Rightarrow> nat \<times> string http_response promise" where
  "all_accepted i = (i, Inr \<lparr>status = 200, statusText = ''OK'', json = Inr ''{}''\<rparr>)"

definition response_204 :: "string http_response" where
  "response_204 = \<lparr>status = 204, statusText = ''No Content'',
     json = Inl ''Unexpected end of JSON input''\<rparr>"

definition no_content :: "nat \<Rightarrow> nat \<times> string http_response promise" where
  "no_content i = (i, Inr response_204)"

definition second_refused :: "nat \<Rightarrow> nat \<times> string http_response promise" where
  "second_refused i =
     (i, Inr \<lparr>status = (if i = 1 then 500 else 200),
              statusText = (if i = 1 then ''Internal Server Error'' else ''OK''),
              json = Inr ''{}''\<rparr>)"

section \<open>Properties of the attendance view\<close>

lemma string_of_nat_500: "string_of_nat 500 = ''500''"
  by code_simp

text \<open>
  C8. A \<open>POST /verify\<close> response whose status is outside 200..299 is a hard failure of the
  attempt: the error banner shows the transport error, the callback reports "not verified",
  and the attendance log is left as it was.
\<close>

theorem verify_non_2xx_is_hard_failure:
  assumes "\<not> ok response"
  shows "sendFrame_settle now (Inr response) s =
           (False, s\<lparr>processing := False,
                     error := Some (''Error verifying face: Server responded with '' @
                                    string_of_nat (status response))\<rparr>) \<and>
         error (tick_settle now (Inr response) s) =
           Some (''Error verifying face: Server responded with '' @ string_of_nat (status response)) \<and>
         attendanceLog (tick_settle now (Inr response) s) = attendanceLog s \<and>
         toasts (tick_settle now (Inr response) s) = toasts s"
  using assms by (simp add: sendFrame_settle_def sendFrame_catch_def tick_settle_def)

theorem verify_non_2xx_is_hard_failure_witness:
  "\<not> ok response_500 \<and>
   error (snd (sendFrame_settle ''09:00'' (Inr response_500) initial)) =
     Some ''Error verifying face: Server responded with 500'' \<and>
   attendanceLog (snd (sendFrame_settle ''09:00'' (Inr response_500) initial)) = []"
proof -
  have h: "\<not> ok response_500" by (simp add: ok_def response_500_def)
  show ?thesis
    using h verify_non_2xx_is_hard_failure [OF h, of "''09:00''" initial]
    by (simp add: string_of_nat_500 initial_def response_500_def)
qed

subsection \<open>One round of the polling loop\<close>

lemma run_append: "run (es @ fs) s = run fs (run es s)"
  by (induction es arbitrary: s) simp_all

lemma render_capturing: "capturing s t \<Longrightarrow> render s = s"
  by (auto simp: capturing_def render_def)

lemma render_keeps [simp]:
  "isCapturing (render s) = isCapturing s"
  "attendanceLog (render s) = attendanceLog s"
  "error (render s) = error s"
  "processing (render s) = processing s"
  "streamRef (render s) = streamRef s"
  "intervalRef (render s) = intervalRef s"
  "streams (render s) = streams s"
  "timers (render s) = timers s"
  "toasts (render s) = toasts s"
  "inFlight (render s) = inFlight s"
  "pausing (render s) = pausing s"
  "acquiring (render s) = acquiring s"
  by (simp_all add: render_def split: option.splits)

lemma render_unmounts: "\<not> isCapturing s \<Longrightarrow> videoRef (render s) = None"
  by (simp add: render_def)

lemma capturing_state_capturing: "capturing capturing_state 1"
  by code_simp

lemma capturing_cong:
  assumes "capturing s t"
  shows "capturing (s\<lparr>processing := p, toasts := ts\<rparr>) t"
    and "capturing (s\<lparr>processing := p, toasts := ts, attendanceLog := l\<rparr>) t"
    and "capturing (s\<lparr>processing := p, error := e\<rparr>) t"
    and "capturing (sendFrame_issue s) t"
  using assms by (simp_all add: capturing_def sendFrame_issue_def)

lemma fire_capturing:
  assumes "capturing s t"
  shows "step (TimerFire t True (Some b)) s = sendFrame_issue s"
proof -
  have "videoRef s \<noteq> None" "t \<in> set (timers s)"
    using assms by (simp_all add: capturing_def)
  then have "step (TimerFire t True (Some b)) s = render (sendFrame_issue s)"
    by (cases "videoRef s") (simp_all add: tick_fire_def captureFrame_def)
  then show ?thesis
    using render_capturing [OF capturing_cong(4) [OF assms]] by simp
qed

lemma round_not_verified:
  assumes "capturing s t" "ok r" "json r = Inr d" "\<not> verified d"
  shows "run [TimerFire t True (Some b), FetchSettled now (Inr r)] s =
           s\<lparr>processing := False, toasts := toasts s @ [ToastError (message d)]\<rparr>"
proof -
  let ?s' = "s\<lparr>processing := False, toasts := toasts s @ [ToastError (message d)]\<rparr>"
  have "tick_settle now (Inr r) (sendFrame_issue s\<lparr>inFlight := inFlight (sendFrame_issue s) - 1\<rparr>) = ?s'"
    using assms(2-) by (simp add: sendFrame_issue_def tick_settle_def sendFrame_settle_def)
  then have "step (FetchSettled now (Inr r)) (sendFrame_issue s) = render ?s'"
    by (simp add: sendFrame_issue_def)
  also have "\<dots> = ?s'"
    using capturing_cong(1) [OF assms(1)] by (rule render_capturing)
  finally show ?thesis
    unfolding run.simps fire_capturing [OF assms(1)] .
qed

lemma round_verified:
  assumes "capturing s t" "ok r" "json r = Inr d" "verified d"
  shows "run [TimerFire t True (Some b), FetchSettled now (Inr r)] s =
           render (stopAttendance (s\<lparr>processing := False,
              toasts := toasts s @ [ToastSuccess (''Successfully recorded attendance for '' @ user_id d)],
              attendanceLog := \<lparr>userId = user_id d, timestamp = now,
                                  confidenceScore = confidence_score d\<rparr> # attendanceLog s\<rparr>))"
proof -
  note fire = fire_capturing [OF assms(1), of b]
  show ?thesis
    using assms(2-) unfolding run.simps fire
    by (simp add: sendFrame_issue_def tick_settle_def sendFrame_settle_def)
qed

lemma stopAttendance_idle:
  assumes "capturing s t"
  shows "idle (stopAttendance s)"
    and "t \<notin> set (timers (stopAttendance s))"
    and "videoRef (stopAttendance s) = Some None"
    and "attendanceLog (stopAttendance s) = attendanceLog s"
    and "toasts (stopAttendance s) = toasts s"
    and "streamRef s = Some h \<Longrightarrow> h < length (streams s) \<Longrightarrow>
           \<not> stream_active (streams (stopAttendance s) ! h)"
  using assms
  by (auto simp: capturing_def idle_def stopAttendance_def stopCamera_def stopTracks_def
      stream_active_def split: option.splits)

lemma stopAttendance_rendered:
  assumes "capturing s t"
  shows "idle (render (stopAttendance s))"
    and "videoRef (render (stopAttendance s)) = None"
  using stopAttendance_idle(1) [OF assms]
  by (simp_all add: idle_def render_unmounts)

text \<open>
  C4. From a capturing poller, three ticks answered \<open>verified: false\<close>,
  \<open>verified: false\<close>, \<open>verified: true\<close>: the first two ticks append no record, show the
  endpoint's message as an error toast and leave the poller capturing; the third tick puts
  exactly one record at the head of the log and makes the poller idle, with the timer cancelled,
  the tracks of the held stream stopped and the video element gone from the view.
\<close>

theorem ticks_false_false_true:
  assumes cap: "capturing s t"
    and r1: "ok r1" "json r1 = Inr d1" "\<not> verified d1"
    and r2: "ok r2" "json r2 = Inr d2" "\<not> verified d2"
    and r3: "ok r3" "json r3 = Inr d3" "verified d3"
  shows "attendanceLog (run [TimerFire t True (Some b1), FetchSettled n1 (Inr r1)] s) = attendanceLog s \<and>
         toasts (run [TimerFire t True (Some b1), FetchSettled n1 (Inr r1)] s) =
           toasts s @ [ToastError (message d1)] \<and>
         capturing (run [TimerFire t True (Some b1), FetchSettled n1 (Inr r1)] s) t \<and>
         attendanceLog (run [TimerFire t True (Some b1), FetchSettled n1 (Inr r1),
                             TimerFire t True (Some b2), FetchSettled n2 (Inr r2)] s) = attendanceLog s \<and>
         toasts (run [TimerFire t True (Some b1), FetchSettled n1 (Inr r1),
                      TimerFire t True (Some b2), FetchSettled n2 (Inr r2)] s) =
           toasts s @ [ToastError (message d1), ToastError (message d2)] \<and>
         capturing (run [TimerFire t True (Some b1), FetchSettled n1 (Inr r1),
                         TimerFire t True (Some b2), FetchSettled n2 (Inr r2)] s) t \<and>
         attendanceLog (run [TimerFire t True (Some b1), FetchSettled n1 (Inr r1),
                             TimerFire t True (Some b2), FetchSettled n2 (Inr r2),
                             TimerFire t True (Some b3), FetchSettled n3 (Inr r3)] s) =
           \<lparr>userId = user_id d3, timestamp = n3, confidenceScore = confidence_score d3\<rparr> #
           attendanceLog s \<and>
         idle (run [TimerFire t True (Some b1), FetchSettled n1 (Inr r1),
                    TimerFire t True (Some b2), FetchSettled n2 (Inr r2),
                    TimerFire t True (Some b3), FetchSettled n3 (Inr r3)] s) \<and>
         t \<notin> set (timers (run [TimerFire t True (Some b1), FetchSettled n1 (Inr r1),
                                  TimerFire t True (Some b2), FetchSettled n2 (Inr r2),
                                  TimerFire t True (Some b3), FetchSettled n3 (Inr r3)] s)) \<and>
         videoRef (run [TimerFire t True (Some b1), FetchSettled n1 (Inr r1),
                        TimerFire t True (Some b2), FetchSettled n2 (Inr r2),
                        TimerFire t True (Some b3), FetchSettled n3 (Inr r3)] s) = None \<and>
         (\<forall>h. streamRef s = Some h \<and> h < length (streams s) \<longrightarrow>
            \<not> stream_active (streams (run [TimerFire t True (Some b1), FetchSettled n1 (Inr r1),
                                            TimerFire t True (Some b2), FetchSettled n2 (Inr r2),
                                            TimerFire t True (Some b3), FetchSettled n3 (Inr r3)] s) ! h))"
proof -
  let ?e1 = "[TimerFire t True (Some b1), FetchSettled n1 (Inr r1)]"
  let ?e2 = "[TimerFire t True (Some b2), FetchSettled n2 (Inr r2)]"
  let ?e3 = "[TimerFire t True (Some b3), FetchSettled n3 (Inr r3)]"
  let ?s1 = "s\<lparr>processing := False, toasts := toasts s @ [ToastError (message d1)]\<rparr>"
  let ?s2 = "?s1\<lparr>processing := False, toasts := toasts ?s1 @ [ToastError (message d2)]\<rparr>"
  let ?s3 = "?s2\<lparr>processing := False,
              toasts := toasts ?s2 @ [ToastSuccess (''Successfully recorded attendance for '' @ user_id d3)],
              attendanceLog := \<lparr>userId = user_id d3, timestamp = n3,
                                  confidenceScore = confidence_score d3\<rparr> # attendanceLog ?s2\<rparr>"
  have 1: "run ?e1 s = ?s1"
    using round_not_verified [OF cap r1] .
  have c1: "capturing ?s1 t"
    using capturing_cong(1) [OF cap] .
  have "run (?e1 @ ?e2) s = run ?e2 ?s1"
    unfolding run_append 1 ..
  also have "\<dots> = ?s2"
    using round_not_verified [OF c1 r2] .
  finally have 2: "run (?e1 @ ?e2) s = ?s2" .
  have c2: "capturing ?s2 t"
    using capturing_cong(1) [OF c1] .
  have "run ((?e1 @ ?e2) @ ?e3) s = run ?e3 ?s2"
    unfolding run_append [of "?e1 @ ?e2"] 2 ..
  also have "\<dots> = render (stopAttendance ?s3)"
    using round_verified [OF c2 r3] .
  finally have 3: "run ((?e1 @ ?e2) @ ?e3) s = render (stopAttendance ?s3)" .
  have c3: "capturing ?s3 t"
    using capturing_cong(2) [OF c2] .
  have streams3: "streams ?s3 = streams s" "streamRef ?s3 = streamRef s"
    by simp_all
  note fin = stopAttendance_idle [OF c3]
  note shown = stopAttendance_rendered [OF c3]
  have log3: "attendanceLog (render (stopAttendance ?s3)) =
      \<lparr>userId = user_id d3, timestamp = n3, confidenceScore = confidence_score d3\<rparr> # attendanceLog s"
    using fin(4) by simp
  have tim3: "t \<notin> set (timers (render (stopAttendance ?s3)))"
    using fin(2) by simp
  have str3: "\<forall>h. streamRef s = Some h \<and> h < length (streams s) \<longrightarrow>
      \<not> stream_active (streams (render (stopAttendance ?s3)) ! h)"
    using fin(6) streams3 by (metis render_keeps(7))
  show ?thesis
    using 1 c1 2 c2 3 shown tim3 log3 str3 by simp
qed

theorem ticks_false_false_true_witness:
  "capturing capturing_state 1 \<and>
   attendanceLog (run [TimerFire 1 True (Some ''frame1''), FetchSettled ''09:00:02'' (reply no_match),
                       TimerFire 1 True (Some ''frame2''), FetchSettled ''09:00:04'' (reply no_match)]
                    capturing_state) = [] \<and>
   attendanceLog (run [TimerFire 1 True (Some ''frame1''), FetchSettled ''09:00:02'' (reply no_match),
                       TimerFire 1 True (Some ''frame2''), FetchSettled ''09:00:04'' (reply no_match),
                       TimerFire 1 True (Some ''frame3''), FetchSettled ''09:00:06'' (reply match_u1)]
                    capturing_state) =
     [\<lparr>userId = ''u1'', timestamp = ''09:00:06'', confidenceScore = 9 / 10\<rparr>] \<and>
   idle (run [TimerFire 1 True (Some ''frame1''), FetchSettled ''09:00:02'' (reply no_match),
              TimerFire 1 True (Some ''frame2''), FetchSettled ''09:00:04'' (reply no_match),
              TimerFire 1 True (Some ''frame3''), FetchSettled ''09:00:06'' (reply match_u1)]
           capturing_state)"
proof -
  let ?no = "\<lparr>status = 200, statusText = ''OK'', json = Inr no_match\<rparr>"
  let ?yes = "\<lparr>status = 200, statusText = ''OK'', json = Inr match_u1\<rparr>"
  have no: "ok ?no" "json ?no = Inr no_match" "\<not> verified no_match"
    by (simp_all add: ok_def no_match_def)
  have yes: "ok ?yes" "json ?yes = Inr match_u1" "verified match_u1"
    by (simp_all add: ok_def match_u1_def)
  have init: "attendanceLog capturing_state = []"
    by code_simp
  show ?thesis
    using ticks_false_false_true [OF capturing_state_capturing no no yes,
        of "''frame1''" "''09:00:02''" "''frame2''" "''09:00:04''" "''frame3''" "''09:00:06''"]
      capturing_state_capturing init
    by (simp add: reply_def match_u1_def)
qed

subsection \<open>Failures inside the polling loop\<close>

lemma tick_settle_failure:
  assumes "fetched = Inl msg \<or>
           (\<exists>r. fetched = Inr r \<and> \<not> ok r \<and>
                msg = ''Server responded with '' @ string_of_nat (status r)) \<or>
           (\<exists>r. fetched = Inr r \<and> ok r \<and> json r = Inl msg)"
  shows "tick_settle now fetched s =
           s\<lparr>processing := False, error := Some (''Error verifying face: '' @ msg)\<rparr>"
  using assms
  by (auto simp: tick_settle_def sendFrame_settle_def sendFrame_catch_def)

lemma tick_fire_issues:
  assumes "capturing s t"
  shows "step (TimerFire t context (Some b)) s = (if context then sendFrame_issue s else s)"
proof (cases "context")
  case True
  then show ?thesis using fire_capturing [OF assms] by simp
next
  case False
  have "videoRef s \<noteq> None"
    using assms by (simp add: capturing_def)
  then have "tick_fire False (Some b) s = s"
    by (cases "videoRef s") (simp_all add: tick_fire_def captureFrame_def)
  then show ?thesis
    using False render_capturing [OF assms] by simp
qed

lemma error_after_camera:
  "error (startAttendance_wait ready s) = error s"
  "error (loaded_data s) = error s"
  by (simp_all add: startAttendance_wait_def loaded_data_def setInterval_def split: option.splits)

lemma startAttendance_camera_error:
  assumes "\<not> isCapturing s"
  shows "error (startAttendance (Inl msg) loaded s) = Some (''Could not access camera: '' @ msg)"
proof -
  let ?s1 = "render (startAttendance_click s)"
  have "pausing ?s1 = Suc (pausing s)"
    using assms by (simp add: startAttendance_click_def)
  then have "acquiring (pause_elapsed ?s1) = Suc (acquiring s)"
    using assms by (simp add: pause_elapsed_def startCamera_begin_def startAttendance_click_def)
  then have "error (media_settled (Inl msg) False (pause_elapsed ?s1)) =
      Some (''Could not access camera: '' @ msg)"
    by (simp add: media_settled_def startCamera_settle_def error_after_camera)
  then show ?thesis
    using assms by (simp add: startAttendance_def Let_def error_after_camera)
qed

text \<open>
  C1, as the code has it. An error of camera start is shown in the error banner. An error
  of a verification submission during the polling loop (the request fails, the status is not
  2xx, or the body cannot be read) is shown in the error banner and clears the processing
  flag, and that is all: no record is appended and the poller stays capturing on the same
  armed timer with the camera held, so the next tick of the timer submits a frame again
  without any action of the user.
\<close>

theorem poller_failure_policy:
  assumes "\<not> isCapturing s0"
    and "capturing s t"
    and "fetched = Inl msg \<or>
         (\<exists>r. fetched = Inr r \<and> \<not> ok r \<and>
              msg = ''Server responded with '' @ string_of_nat (status r)) \<or>
         (\<exists>r. fetched = Inr r \<and> ok r \<and> json r = Inl msg)"
  shows "error (startAttendance (Inl cam) loaded s0) = Some (''Could not access camera: '' @ cam) \<and>
         tick_settle now fetched s =
           s\<lparr>processing := False, error := Some (''Error verifying face: '' @ msg)\<rparr> \<and>
         capturing (tick_settle now fetched s) t \<and>
         inFlight (step (TimerFire t True (Some b)) (tick_settle now fetched s)) = Suc (inFlight s)"
proof -
  let ?s' = "s\<lparr>processing := False, error := Some (''Error verifying face: '' @ msg)\<rparr>"
  have settle: "tick_settle now fetched s = ?s'"
    using tick_settle_failure [OF assms(3)] .
  have cap: "capturing ?s' t"
    using capturing_cong(3) [OF assms(2)] .
  have "inFlight (step (TimerFire t True (Some b)) ?s') = Suc (inFlight s)"
    unfolding tick_fire_issues [OF cap] by (simp add: sendFrame_issue_def)
  with settle cap startAttendance_camera_error [OF assms(1)] show ?thesis
    by simp
qed

theorem poller_failure_policy_witness:
  "\<not> isCapturing initial \<and> capturing capturing_state 1 \<and>
   error (startAttendance (Inl ''Permission denied'') True initial) =
     Some ''Could not access camera: Permission denied'' \<and>
   error (tick_settle ''09:00:02'' (Inr response_500) capturing_state) =
     Some ''Error verifying face: Server responded with 500'' \<and>
   capturing (tick_settle ''09:00:02'' (Inr response_500) capturing_state) 1 \<and>
   inFlight (step (TimerFire 1 True (Some ''frame2''))
               (tick_settle ''09:00:02'' (Inr response_500) capturing_state)) = 1"
proof -
  have idle0: "\<not> isCapturing initial"
    by (simp add: initial_def)
  have fail: "Inr response_500 = Inl ''Server responded with 500'' \<or>
         (\<exists>r. Inr response_500 = Inr r \<and> \<not> ok r \<and>
              ''Server responded with 500'' = ''Server responded with '' @ string_of_nat (status r)) \<or>
         (\<exists>r. Inr response_500 = Inr r \<and> ok r \<and> json r = Inl ''Server responded with 500'')"
    by (simp add: response_500_def ok_def string_of_nat_500)
  have zero: "inFlight capturing_state = 0"
    by code_simp
  note policy = poller_failure_policy [OF idle0 capturing_state_capturing fail,
        of "''Permission denied''" True "''09:00:02''" "''frame2''"]
  from policy have cam: "error (startAttendance (Inl ''Permission denied'') True initial) =
      Some ''Could not access camera: Permission denied''"
    by simp
  from policy have "tick_settle ''09:00:02'' (Inr response_500) capturing_state =
      capturing_state\<lparr>processing := False,
        error := Some (''Error verifying face: '' @ ''Server responded with 500'')\<rparr>"
    by (rule conjunct1 [OF conjunct2])
  then have banner: "error (tick_settle ''09:00:02'' (Inr response_500) capturing_state) =
      Some ''Error verifying face: Server responded with 500''"
    by simp
  from policy have still: "capturing (tick_settle ''09:00:02'' (Inr response_500) capturing_state) 1"
    by (rule conjunct1 [OF conjunct2 [OF conjunct2]])
  from policy have "inFlight (step (TimerFire 1 True (Some ''frame2''))
               (tick_settle ''09:00:02'' (Inr response_500) capturing_state)) = Suc (inFlight capturing_state)"
    by (rule conjunct2 [OF conjunct2 [OF conjunct2]])
  then have again: "inFlight (step (TimerFire 1 True (Some ''frame2''))
               (tick_settle ''09:00:02'' (Inr response_500) capturing_state)) = 1"
    unfolding zero by simp
  from idle0 capturing_state_capturing cam banner still again show ?thesis
    by (intro conjI)
qed

text \<open>
  C1 as stated fails: after a tick answered with HTTP 500 the poller is not idle. The flag is
  still set, the timer is still armed and the stream is still live.
\<close>

theorem poller_failure_policy_counterexample:
  "\<not> idle (run [TimerFire 1 True (Some ''frame1''), FetchSettled ''09:00:02'' (Inr response_500)]
              capturing_state) \<and>
   isCapturing (run [TimerFire 1 True (Some ''frame1''), FetchSettled ''09:00:02'' (Inr response_500)]
                  capturing_state) \<and>
   timers (run [TimerFire 1 True (Some ''frame1''), FetchSettled ''09:00:02'' (Inr response_500)]
             capturing_state) = [1] \<and>
   active_streams (streams (run [TimerFire 1 True (Some ''frame1''),
                                 FetchSettled ''09:00:02'' (Inr response_500)] capturing_state)) = [0]"
  by code_simp

subsection \<open>Ticks and requests in flight\<close>

lemma tick_fire_capturing:
  assumes "capturing s t"
  shows "capturing (step (TimerFire t True (Some b)) s) t"
    and "inFlight (step (TimerFire t True (Some b)) s) = Suc (inFlight s)"
  using capturing_cong(4) [OF assms]
  by (simp_all add: fire_capturing [OF assms] sendFrame_issue_def del: step.simps)

lemma ticks_in_flight:
  assumes "capturing s t"
  shows "inFlight (run (map (\<lambda>b. TimerFire t True (Some b)) frames) s) = inFlight s + length frames"
  using assms
proof (induction frames arbitrary: s)
  case Nil
  then show ?case by simp
next
  case (Cons b frames)
  have "inFlight (run (map (\<lambda>b. TimerFire t True (Some b)) frames) (step (TimerFire t True (Some b)) s)) =
          inFlight (step (TimerFire t True (Some b)) s) + length frames"
    using Cons.IH [OF tick_fire_capturing(1) [OF Cons.prems]] .
  then show ?case
    using tick_fire_capturing(2) [OF Cons.prems] by simp
qed

lemma inFlight_stopAttendance: "inFlight (stopAttendance s) = inFlight s"
  by (simp add: stopAttendance_def stopCamera_def Let_def split: option.splits)

lemma inFlight_tick_settle: "inFlight (tick_settle now fetched s) = inFlight s"
  by (auto simp: tick_settle_def sendFrame_settle_def sendFrame_catch_def Let_def
      inFlight_stopAttendance split: sum.splits)

text \<open>
  C9, as the code has it. The timer does not wait for the callback of an earlier tick: while
  the poller is capturing, every tick that captures a frame issues a request of its own, also
  when earlier requests have not settled, so after \<open>n\<close> such ticks with no response in
  between \<open>n\<close> more requests are in flight. Only when the response of a tick arrives before
  the next tick does the number of requests in flight return to what it was.
\<close>

theorem ticks_do_not_wait:
  assumes "capturing s t"
  shows "inFlight (run (map (\<lambda>b. TimerFire t True (Some b)) frames) s) = inFlight s + length frames \<and>
         inFlight (run [TimerFire t True (Some b), FetchSettled now fetched] s) = inFlight s"
proof -
  have "inFlight (run [TimerFire t True (Some b), FetchSettled now fetched] s) = inFlight s"
    using tick_fire_capturing(2) [OF assms, of b]
    by (simp add: inFlight_tick_settle del: step.simps(3))
  with ticks_in_flight [OF assms] show ?thesis
    by simp
qed

theorem ticks_do_not_wait_witness:
  "capturing capturing_state 1 \<and>
   inFlight (run (map (\<lambda>b. TimerFire 1 True (Some b)) [''frame1'', ''frame2'', ''frame3''])
               capturing_state) = 3 \<and>
   inFlight (run [TimerFire 1 True (Some ''frame1''), FetchSettled ''09:00:02'' (reply no_match)]
               capturing_state) = 0"
proof -
  have zero: "inFlight capturing_state = 0"
    by code_simp
  show ?thesis
    using ticks_do_not_wait [OF capturing_state_capturing,
        of "[''frame1'', ''frame2'', ''frame3'']" "''frame1''" "''09:00:02''" "reply no_match"]
      capturing_state_capturing zero
    by simp
qed

text \<open>
  C9 as stated fails: two ticks in a row, the second before the first request has settled,
  leave two verification requests in flight.
\<close>

theorem ticks_overlap_counterexample:
  "inFlight (run [TimerFire 1 True (Some ''frame1''), TimerFire 1 True (Some ''frame2'')]
               capturing_state) = 2"
  by code_simp

section \<open>Properties of the registration view\<close>

subsection \<open>Promise.all\<close>

lemma first_rejection_None:
  "first_rejection ps = None \<longleftrightarrow> (\<forall>p \<in> set ps. \<exists>v. snd p = Inr v)"
  by (induction ps rule: first_rejection.induct) (auto split: option.splits)

lemma first_rejection_Some:
  "first_rejection ps = Some (t, e) \<Longrightarrow> (t, Inl e) \<in> set ps"
  by (induction ps arbitrary: t e rule: first_rejection.induct)
     (auto split: option.splits if_splits)

lemma promise_all_Inr:
  "(\<exists>vs. promise_all ps = Inr vs) \<longleftrightarrow> (\<forall>p \<in> set ps. \<exists>v. snd p = Inr v)"
  by (auto simp: promise_all_def first_rejection_None [symmetric] split: option.splits)

lemma promise_all_Inl:
  "promise_all ps = Inl e \<Longrightarrow> \<exists>t. (t, Inl e) \<in> set ps"
  by (auto simp: promise_all_def split: option.splits dest: first_rejection_Some)

lemma submitImage_Inr:
  "submitImage fetched = Inr body \<longleftrightarrow> (\<exists>r. fetched = Inr r \<and> ok r \<and> json r = Inr body)"
  by (auto simp: submitImage_def split: sum.splits)

subsection \<open>registerUser\<close>

lemma registerUser_rejects:
  "trim (userId_reg s) = [] \<Longrightarrow>
     registerUser net s =
       s\<lparr>message_reg := \<lparr>msg_text = ''Please enter a user ID'', msg_type = ErrorMsg\<rparr>\<rparr>"
  "trim (userId_reg s) \<noteq> [] \<Longrightarrow> capturedImages s = [] \<Longrightarrow>
     registerUser net s =
       s\<lparr>message_reg := \<lparr>msg_text = ''Please capture at least one image'',
                           msg_type = ErrorMsg\<rparr>\<rparr>"
  by (simp_all add: registerUser_def)

lemma registerUser_submits:
  assumes "trim (userId_reg s) \<noteq> []" "capturedImages s \<noteq> []"
  shows "registerUser net s =
     s\<lparr>isLoading := False,
       registerRequests := registerRequests s @ map (register_form (userId_reg s)) (capturedImages s),
       message_reg :=
         (case promise_all (map (\<lambda>i. (fst (net i), submitImage (snd (net i))))
                              [0..<length (capturedImages s)]) of
            Inr bodies \<Rightarrow>
              \<lparr>msg_text = ''User '' @ userId_reg s @ '' registered successfully with '' @
                     string_of_nat (length (capturedImages s)) @ '' images'',
               msg_type = SuccessMsg\<rparr>
          | Inl msg \<Rightarrow> \<lparr>msg_text = ''Error: '' @ msg, msg_type = ErrorMsg\<rparr>)\<rparr>"
  using assms by (simp add: registerUser_def Let_def split: sum.splits)

lemma all_submissions_succeed:
  "(\<exists>vs. promise_all (map (\<lambda>i. (fst (net i), submitImage (snd (net i)))) [0..<n]) = Inr vs) \<longleftrightarrow>
   (\<forall>i<n. \<exists>r body. snd (net i) = Inr r \<and> ok r \<and> json r = Inr body)"
proof -
  have "(\<forall>p \<in> set (map (\<lambda>i. (fst (net i), submitImage (snd (net i)))) [0..<n]). \<exists>v. snd p = Inr v) \<longleftrightarrow>
        (\<forall>i<n. \<exists>body. submitImage (snd (net i)) = Inr body)"
    by auto
  also have "\<dots> \<longleftrightarrow> (\<forall>i<n. \<exists>r body. snd (net i) = Inr r \<and> ok r \<and> json r = Inr body)"
    unfolding submitImage_Inr by blast
  finally show ?thesis
    unfolding promise_all_Inr .
qed

lemma submitImage_Inl:
  "submitImage fetched = Inl e \<longleftrightarrow>
     (fetched = Inl e \<or>
      (\<exists>r. fetched = Inr r \<and> \<not> ok r \<and> e = ''Registration failed: '' @ statusText r) \<or>
      (\<exists>r. fetched = Inr r \<and> ok r \<and> json r = Inl e))"
  by (auto simp: submitImage_def split: sum.splits)

lemma some_submission_failed:
  assumes "promise_all (map (\<lambda>i. (fst (net i), submitImage (snd (net i)))) [0..<n]) = Inl e"
  shows "\<exists>i<n. submitImage (snd (net i)) = Inl e"
proof -
  obtain t where "(t, Inl e) \<in> set (map (\<lambda>i. (fst (net i), submitImage (snd (net i)))) [0..<n])"
    using promise_all_Inl [OF assms] by blast
  then show ?thesis by auto
qed

lemma two_images_facts:
  "userId_reg two_images = ''u1''"
  "capturedImages two_images =
     [\<lparr>image_id = 1000, blob = ''jpeg'', url = ''blob:0''\<rparr>,
      \<lparr>image_id = 1001, blob = ''jpeg'', url = ''blob:1''\<rparr>]"
  "registerRequests two_images = []"
  "facingMode two_images = User"
  by code_simp+

lemma trim_u1: "trim ''u1'' = ''u1''"
  by code_simp

lemma face_names: "string_of_nat 1000 = ''1000''" "string_of_nat 1001 = ''1001''"
  by code_simp+

text \<open>
  C5, as the code has it. \<open>registerUser\<close> with an identifier that is empty after trimming,
  or with no pending image, reports an error and issues no request. Otherwise it issues,
  after the requests issued before, one \<open>POST /register\<close> for every pending image in the
  order of the list; the request for an image carries the identifier in the field \<open>id\<close>
  and the blob of that image as the file \<open>face_<id>.jpg\<close>. It reports success exactly when
  every one of these requests is answered with a 2xx status and a body that can be read as
  JSON, and the success message then names the identifier and the number of images. In every
  other case it reports an error whose text is the reason of one failed submission (the
  network error, \<open>Registration failed:\<close> with the status text, or the error of reading the
  body), and no success message is shown.
\<close>

theorem registerUser_contract:
  "(trim (userId_reg s) = [] \<longrightarrow>
      message_reg (registerUser net s) =
        \<lparr>msg_text = ''Please enter a user ID'', msg_type = ErrorMsg\<rparr> \<and>
      registerRequests (registerUser net s) = registerRequests s) \<and>
   (trim (userId_reg s) \<noteq> [] \<and> capturedImages s = [] \<longrightarrow>
      message_reg (registerUser net s) =
        \<lparr>msg_text = ''Please capture at least one image'', msg_type = ErrorMsg\<rparr> \<and>
      registerRequests (registerUser net s) = registerRequests s) \<and>
   (trim (userId_reg s) \<noteq> [] \<and> capturedImages s \<noteq> [] \<longrightarrow>
      length (registerRequests (registerUser net s)) =
        length (registerRequests s) + length (capturedImages s) \<and>
      take (length (registerRequests s)) (registerRequests (registerUser net s)) =
        registerRequests s \<and>
      (\<forall>i<length (capturedImages s).
         registerRequests (registerUser net s) ! (length (registerRequests s) + i) =
           \<lparr>form_id = userId_reg s, imageFile = blob (capturedImages s ! i),
            filename = ''face_'' @ string_of_nat (image_id (capturedImages s ! i)) @ ''.jpg''\<rparr>) \<and>
      (msg_type (message_reg (registerUser net s)) = SuccessMsg \<longleftrightarrow>
         (\<forall>i<length (capturedImages s). \<exists>r body. snd (net i) = Inr r \<and> ok r \<and> json r = Inr body)) \<and>
      ((\<forall>i<length (capturedImages s). \<exists>r body. snd (net i) = Inr r \<and> ok r \<and> json r = Inr body) \<longrightarrow>
         message_reg (registerUser net s) =
           \<lparr>msg_text = ''User '' @ userId_reg s @ '' registered successfully with '' @
                  string_of_nat (length (capturedImages s)) @ '' images'',
            msg_type = SuccessMsg\<rparr>) \<and>
      (\<not> (\<forall>i<length (capturedImages s). \<exists>r body. snd (net i) = Inr r \<and> ok r \<and> json r = Inr body) \<longrightarrow>
         (\<exists>i<length (capturedImages s). \<exists>e.
            (snd (net i) = Inl e \<or>
             (\<exists>r. snd (net i) = Inr r \<and> \<not> ok r \<and> e = ''Registration failed: '' @ statusText r) \<or>
             (\<exists>r. snd (net i) = Inr r \<and> ok r \<and> json r = Inl e)) \<and>
            message_reg (registerUser net s) =
              \<lparr>msg_text = ''Error: '' @ e, msg_type = ErrorMsg\<rparr>)))"
proof (intro conjI impI)
  assume "trim (userId_reg s) = []"
  then show "message_reg (registerUser net s) =
        \<lparr>msg_text = ''Please enter a user ID'', msg_type = ErrorMsg\<rparr>"
    and "registerRequests (registerUser net s) = registerRequests s"
    by (simp_all add: registerUser_rejects(1))
next
  assume "trim (userId_reg s) \<noteq> [] \<and> capturedImages s = []"
  then show "message_reg (registerUser net s) =
        \<lparr>msg_text = ''Please capture at least one image'', msg_type = ErrorMsg\<rparr>"
    and "registerRequests (registerUser net s) = registerRequests s"
    by (simp_all add: registerUser_rejects(2))
next
  assume a: "trim (userId_reg s) \<noteq> [] \<and> capturedImages s \<noteq> []"
  let ?n = "length (capturedImages s)"
  let ?all = "promise_all (map (\<lambda>i. (fst (net i), submitImage (snd (net i)))) [0..<?n])"
  let ?good = "\<forall>i<?n. \<exists>r body. snd (net i) = Inr r \<and> ok r \<and> json r = Inr body"
  note eq = registerUser_submits [OF conjunct1 [OF a] conjunct2 [OF a], of net]
  have reqs: "registerRequests (registerUser net s) =
        registerRequests s @ map (register_form (userId_reg s)) (capturedImages s)"
    unfolding eq by simp
  show "length (registerRequests (registerUser net s)) = length (registerRequests s) + ?n"
    unfolding reqs by simp
  show "take (length (registerRequests s)) (registerRequests (registerUser net s)) =
        registerRequests s"
    unfolding reqs by simp
  show "\<forall>i<?n. registerRequests (registerUser net s) ! (length (registerRequests s) + i) =
           \<lparr>form_id = userId_reg s, imageFile = blob (capturedImages s ! i),
            filename = ''face_'' @ string_of_nat (image_id (capturedImages s ! i)) @ ''.jpg''\<rparr>"
    unfolding reqs by (simp add: nth_append register_form_def)
  have success: "(\<exists>vs. ?all = Inr vs) \<longleftrightarrow> ?good"
    by (rule all_submissions_succeed)
  have "msg_type (message_reg (registerUser net s)) = SuccessMsg \<longleftrightarrow> (\<exists>vs. ?all = Inr vs)"
    unfolding eq by (cases ?all) simp_all
  then show "msg_type (message_reg (registerUser net s)) = SuccessMsg \<longleftrightarrow> ?good"
    unfolding success .
  {
    assume ?good
    then obtain vs where "?all = Inr vs"
      using success by blast
    then show "message_reg (registerUser net s) =
           \<lparr>msg_text = ''User '' @ userId_reg s @ '' registered successfully with '' @
                  string_of_nat ?n @ '' images'',
            msg_type = SuccessMsg\<rparr>"
      unfolding eq by simp
  }
  {
    assume "\<not> ?good"
    then have "\<nexists>vs. ?all = Inr vs"
      using success by blast
    then obtain e where e: "?all = Inl e"
      by (cases ?all) auto
    then obtain i where i: "i < ?n" "submitImage (snd (net i)) = Inl e"
      using some_submission_failed by blast
    have "message_reg (registerUser net s) = \<lparr>msg_text = ''Error: '' @ e, msg_type = ErrorMsg\<rparr>"
      unfolding eq using e by simp
    with i show "\<exists>i<?n. \<exists>e.
            (snd (net i) = Inl e \<or>
             (\<exists>r. snd (net i) = Inr r \<and> \<not> ok r \<and> e = ''Registration failed: '' @ statusText r) \<or>
             (\<exists>r. snd (net i) = Inr r \<and> ok r \<and> json r = Inl e)) \<and>
            message_reg (registerUser net s) =
              \<lparr>msg_text = ''Error: '' @ e, msg_type = ErrorMsg\<rparr>"
      unfolding submitImage_Inl by blast
  }
qed

theorem registerUser_contract_witness:
  "trim (userId_reg two_images) \<noteq> [] \<and> capturedImages two_images \<noteq> [] \<and>
   message_reg (registerUser all_accepted two_images) =
     \<lparr>msg_text = ''User u1 registered successfully with 2 images'', msg_type = SuccessMsg\<rparr> \<and>
   msg_type (message_reg (registerUser second_refused two_images)) = ErrorMsg \<and>
   length (registerRequests (registerUser second_refused two_images)) = 2 \<and>
   registerRequests (registerUser second_refused two_images) ! 0 =
     \<lparr>form_id = ''u1'', imageFile = ''jpeg'', filename = ''face_1000.jpg''\<rparr> \<and>
   registerRequests (registerUser second_refused two_images) ! 1 =
     \<lparr>form_id = ''u1'', imageFile = ''jpeg'', filename = ''face_1001.jpg''\<rparr>"
proof -
  have pre: "trim (userId_reg two_images) \<noteq> [] \<and> capturedImages two_images \<noteq> []"
    by (simp add: two_images_facts trim_u1)
  have len: "length (capturedImages two_images) = 2"
    by (simp add: two_images_facts)
  have good: "\<forall>i<length (capturedImages two_images).
      \<exists>r body. snd (all_accepted i) = Inr r \<and> ok r \<and> json r = Inr body"
    by (simp add: all_accepted_def ok_def)
  have bad: "\<not> (\<forall>i<length (capturedImages two_images).
      \<exists>r body. snd (second_refused i) = Inr r \<and> ok r \<and> json r = Inr body)"
    unfolding len by (auto simp: second_refused_def ok_def intro!: exI [of _ 1])
  have two: "string_of_nat (Suc (Suc 0)) = ''2''"
    by code_simp
  from registerUser_contract [of two_images all_accepted] pre good
  have "message_reg (registerUser all_accepted two_images) =
           \<lparr>msg_text = ''User '' @ userId_reg two_images @ '' registered successfully with '' @
                  string_of_nat (length (capturedImages two_images)) @ '' images'',
            msg_type = SuccessMsg\<rparr>"
    by blast
  then have 1: "message_reg (registerUser all_accepted two_images) =
     \<lparr>msg_text = ''User u1 registered successfully with 2 images'', msg_type = SuccessMsg\<rparr>"
    by (simp add: two_images_facts two)
  from registerUser_contract [of two_images second_refused] pre bad
  have 2: "msg_type (message_reg (registerUser second_refused two_images)) = ErrorMsg"
    by fastforce
  from registerUser_contract [of two_images second_refused] pre
  have sent: "length (registerRequests (registerUser second_refused two_images)) =
        length (registerRequests two_images) + length (capturedImages two_images)"
    "\<forall>i<length (capturedImages two_images).
         registerRequests (registerUser second_refused two_images) !
           (length (registerRequests two_images) + i) =
           \<lparr>form_id = userId_reg two_images, imageFile = blob (capturedImages two_images ! i),
            filename = ''face_'' @ string_of_nat (image_id (capturedImages two_images ! i)) @ ''.jpg''\<rparr>"
    by blast+
  from sent(1) have 3: "length (registerRequests (registerUser second_refused two_images)) = 2"
    by (simp add: two_images_facts)
  have i0: "0 < length (capturedImages two_images)" and i1: "1 < length (capturedImages two_images)"
    by (simp_all add: len)
  note sent(2) [rule_format, OF i0] sent(2) [rule_format, OF i1]
  then have 4: "registerRequests (registerUser second_refused two_images) ! 0 =
     \<lparr>form_id = ''u1'', imageFile = ''jpeg'', filename = ''face_1000.jpg''\<rparr>"
    and 5: "registerRequests (registerUser second_refused two_images) ! 1 =
     \<lparr>form_id = ''u1'', imageFile = ''jpeg'', filename = ''face_1001.jpg''\<rparr>"
    by (simp_all add: two_images_facts face_names)
  from pre 1 2 3 4 5 show ?thesis
    by (intro conjI) simp_all
qed

text \<open>
  C5 as stated fails when success of a submission is what the interface of the endpoint
  says, the HTTP status: with two pending images and both requests answered 204 without a
  body, every submission has a 2xx status and \<open>registerUser\<close> reports an error.
\<close>

theorem registerUser_contract_counterexample:
  "snd (no_content 0) = Inr response_204 \<and> snd (no_content 1) = Inr response_204 \<and>
   ok response_204 \<and> length (capturedImages two_images) = 2 \<and>
   message_reg (registerUser no_content two_images) =
     \<lparr>msg_text = ''Error: Unexpected end of JSON input'', msg_type = ErrorMsg\<rparr>"
  by code_simp

lemma registerUser_unchanged:
  "userId_reg (registerUser net s) = userId_reg s"
  "capturedImages (registerUser net s) = capturedImages s"
  "facingMode (registerUser net s) = facingMode s"
  "objectURLs (registerUser net s) = objectURLs s"
  by (simp_all add: registerUser_def Let_def split: sum.splits)

lemma capturedImages_step_grows:
  assumes "e \<noteq> ResetForm" "\<forall>i. e \<noteq> RemoveImage i"
  shows "\<exists>new. capturedImages (step_reg e s) = capturedImages s @ new"
  using assms
  by (cases e)
     (auto simp: startCamera_reg_begin_def startCamera_reg_settle_def camera_settled_def
        stopCamera_reg_def toggleCamera_def setUserId_def
        captureImage_def toBlob_callback_def createObjectURL_def registerUser_unchanged
        verifyFace_def verifyFace_catch_def Let_def split: option.splits sum.splits)

text \<open>
  C10. Whatever the network answers, \<open>registerUser\<close> leaves the subject identifier, the pending
  images (entries and preview URLs, and the URLs allocated in the browser) and the facing mode
  as they were; in particular a successful registration does not clear the pending images.
  Of all events of the view only \<open>resetForm\<close> and \<open>removeImage\<close> can make the list shorter:
  every other event leaves the old list as a prefix of the new one.
\<close>

theorem registerUser_frame:
  "userId_reg (registerUser net s) = userId_reg s \<and>
   capturedImages (registerUser net s) = capturedImages s \<and>
   facingMode (registerUser net s) = facingMode s \<and>
   objectURLs (registerUser net s) = objectURLs s \<and>
   (e \<noteq> ResetForm \<and> (\<forall>i. e \<noteq> RemoveImage i) \<longrightarrow>
      (\<exists>new. capturedImages (step_reg e s) = capturedImages s @ new))"
  using capturedImages_step_grows [of e s] by (simp add: registerUser_unchanged)

theorem registerUser_frame_witness:
  "msg_type (message_reg (registerUser all_accepted two_images)) = SuccessMsg \<and>
   userId_reg (registerUser all_accepted two_images) = ''u1'' \<and>
   capturedImages (registerUser all_accepted two_images) =
     [\<lparr>image_id = 1000, blob = ''jpeg'', url = ''blob:0''\<rparr>,
      \<lparr>image_id = 1001, blob = ''jpeg'', url = ''blob:1''\<rparr>] \<and>
   facingMode (registerUser all_accepted two_images) = User \<and>
   (\<exists>new. capturedImages (step_reg (RegisterUser second_refused) two_images) =
            capturedImages two_images @ new)"
proof -
  have ok: "msg_type (message_reg (registerUser all_accepted two_images)) = SuccessMsg"
    by code_simp
  have ev: "RegisterUser second_refused \<noteq> ResetForm \<and>
            (\<forall>i. RegisterUser second_refused \<noteq> RemoveImage i)"
    by simp
  from registerUser_frame [of all_accepted two_images "RegisterUser second_refused"] ev ok
  show ?thesis
    by (simp add: two_images_facts)
qed

subsection \<open>Pending images and their preview URLs\<close>

lemma objectURLs_step: "\<exists>new. objectURLs (step_reg e s) = objectURLs s @ new"
  by (cases e)
     (auto simp: startCamera_reg_begin_def startCamera_reg_settle_def camera_settled_def
        stopCamera_reg_def toggleCamera_def setUserId_def
        captureImage_def toBlob_callback_def createObjectURL_def registerUser_unchanged
        removeImage_def resetForm_def verifyFace_def verifyFace_catch_def Let_def
        split: option.splits sum.splits)

lemma objectURLs_run: "\<exists>new. objectURLs (run_reg es s) = objectURLs s @ new"
proof (induction es arbitrary: s)
  case Nil
  then show ?case by simp
next
  case (Cons e es)
  obtain new1 where 1: "objectURLs (step_reg e s) = objectURLs s @ new1"
    using objectURLs_step by blast
  obtain new2 where 2: "objectURLs (run_reg es (step_reg e s)) = objectURLs (step_reg e s) @ new2"
    using Cons.IH by blast
  show ?case using 1 2 by simp
qed

lemma urls_allocated_step:
  assumes "urls_allocated s"
  shows "urls_allocated (step_reg e s)"
  using assms unfolding urls_allocated_def
  by (cases e)
     (auto simp: startCamera_reg_begin_def startCamera_reg_settle_def camera_settled_def
        stopCamera_reg_def toggleCamera_def setUserId_def
        captureImage_def toBlob_callback_def createObjectURL_def registerUser_unchanged
        removeImage_def resetForm_def verifyFace_def verifyFace_catch_def Let_def
        split: option.splits sum.splits)

lemma urls_allocated_run:
  assumes "urls_allocated s"
  shows "urls_allocated (run_reg es s)"
  using assms by (induction es arbitrary: s) (simp_all add: urls_allocated_step)

lemma filter_absent_id:
  assumes "k \<notin> f ` set xs"
  shows "filter (\<lambda>y. f y \<noteq> k) xs = xs"
  using assms by (induction xs) auto

lemma filter_other_ids:
  assumes "distinct (map f xs)" "x \<in> set xs"
  shows "length (filter (\<lambda>y. f y \<noteq> f x) xs) + 1 = length xs"
    and "set (filter (\<lambda>y. f y \<noteq> f x) xs) = set xs - {x}"
  using assms
proof (induction xs)
  case Nil
  case 1 then show ?case by simp
  case 2 then show ?case by simp
next
  case (Cons a xs)
  case 1
  show ?case
  proof (cases "a = x")
    case True
    with 1 have "f x \<notin> f ` set xs" by simp
    then show ?thesis using True by (simp add: filter_absent_id)
  next
    case False
    with 1 have "x \<in> set xs" "f a \<noteq> f x" "distinct (map f xs)" by auto
    then show ?thesis using Cons.IH(1) by simp
  qed
  case 2
  show ?case
  proof (cases "a = x")
    case True
    with 2 have "f x \<notin> f ` set xs" by simp
    then have "filter (\<lambda>y. f y \<noteq> f x) xs = xs" "x \<notin> set xs"
      by (simp add: filter_absent_id, blast)
    then show ?thesis using True by simp
  next
    case False
    with 2 have "x \<in> set xs" "f a \<noteq> f x" "distinct (map f xs)" by auto
    then show ?thesis using Cons.IH(2) False by auto
  qed
qed

text \<open>
  C3, as the code has it. No preview URL is ever released: the view never calls
  \<open>URL.revokeObjectURL\<close>. Every URL that is allocated stays allocated through every sequence
  of events; \<open>removeImage\<close> and \<open>resetForm\<close> drop images from the pending list and leave the
  allocated URLs as they are; and at every moment of a run from the initial view the URL of
  every pending image is allocated.
\<close>

theorem preview_urls_never_released:
  "(\<exists>new. objectURLs (run_reg es s) = objectURLs s @ new) \<and>
   objectURLs (removeImage imageId s) = objectURLs s \<and>
   objectURLs (resetForm s) = objectURLs s \<and>
   capturedImages (resetForm s) = [] \<and>
   (\<forall>img \<in> set (capturedImages (run_reg es initial_reg)).
      url img \<in> set (objectURLs (run_reg es initial_reg)))"
proof -
  have "urls_allocated initial_reg"
    by (simp add: urls_allocated_def initial_reg_def)
  then have "urls_allocated (run_reg es initial_reg)"
    by (rule urls_allocated_run)
  then have "\<forall>img \<in> set (capturedImages (run_reg es initial_reg)).
      url img \<in> set (objectURLs (run_reg es initial_reg))"
    unfolding urls_allocated_def by blast
  with objectURLs_run [of es s] show ?thesis
    by (simp add: removeImage_def resetForm_def)
qed

lemma captures_2_reset:
  "capturedImages (run_reg (Mount # CameraSettled (Inr 1) # captures 2) initial_reg) =
     [\<lparr>image_id = 1000, blob = ''jpeg'', url = ''blob:0''\<rparr>,
      \<lparr>image_id = 1001, blob = ''jpeg'', url = ''blob:1''\<rparr>]"
  "objectURLs (run_reg (Mount # CameraSettled (Inr 1) # captures 2) initial_reg) = [''blob:0'', ''blob:1'']"
  by code_simp+

theorem preview_urls_never_released_witness:
  "capturedImages (run_reg (Mount # CameraSettled (Inr 1) # captures 2) initial_reg) =
     [\<lparr>image_id = 1000, blob = ''jpeg'', url = ''blob:0''\<rparr>,
      \<lparr>image_id = 1001, blob = ''jpeg'', url = ''blob:1''\<rparr>] \<and>
   ''blob:1'' \<in> set (objectURLs (run_reg (Mount # CameraSettled (Inr 1) # captures 2) initial_reg)) \<and>
   objectURLs (resetForm (run_reg (Mount # CameraSettled (Inr 1) # captures 2) initial_reg)) = [''blob:0'', ''blob:1'']"
proof -
  note never = preview_urls_never_released
    [of "Mount # CameraSettled (Inr 1) # captures 2" "run_reg (Mount # CameraSettled (Inr 1) # captures 2) initial_reg" 0]
  from never have
    "\<forall>img \<in> set (capturedImages (run_reg (Mount # CameraSettled (Inr 1) # captures 2) initial_reg)).
       url img \<in> set (objectURLs (run_reg (Mount # CameraSettled (Inr 1) # captures 2) initial_reg))"
    by blast
  then have 1: "''blob:1'' \<in> set (objectURLs (run_reg (Mount # CameraSettled (Inr 1) # captures 2) initial_reg))"
    unfolding captures_2_reset(1) by simp
  from never have "objectURLs (resetForm (run_reg (Mount # CameraSettled (Inr 1) # captures 2) initial_reg)) =
      objectURLs (run_reg (Mount # CameraSettled (Inr 1) # captures 2) initial_reg)"
    by blast
  then have 2: "objectURLs (resetForm (run_reg (Mount # CameraSettled (Inr 1) # captures 2) initial_reg)) =
      [''blob:0'', ''blob:1'']"
    unfolding captures_2_reset(2) .
  from captures_2_reset(1) 1 2 show ?thesis
    by (intro conjI)
qed

text \<open>
  C3 as stated fails: after two captures and a reset the pending list is empty and both
  preview URLs are still allocated.
\<close>

theorem preview_release_counterexample:
  "capturedImages (run_reg (captures 2 @ [ResetForm]) mounted) = [] \<and>
   objectURLs (run_reg (captures 2 @ [ResetForm]) mounted) = [''blob:0'', ''blob:1'']"
  by code_simp

text \<open>
  C7, as the code has it. \<open>removeImage\<close> keeps exactly the entries whose id differs from the
  given one and changes nothing else in the state of the view or of the browser. With an id
  that no entry carries the list is unchanged. With the id of an entry of a list whose ids
  are pairwise distinct the list gets shorter by exactly one, that entry being the one
  removed. The preview URL of a removed entry is not released.
\<close>

theorem removeImage_semantics:
  "removeImage imageId s =
     s\<lparr>capturedImages := filter (\<lambda>img. image_id img \<noteq> imageId) (capturedImages s)\<rparr> \<and>
   (imageId \<notin> image_id ` set (capturedImages s) \<longrightarrow>
      removeImage imageId s = s \<and>
      capturedImages (removeImage imageId s) = capturedImages s) \<and>
   capturedImages (removeImage imageId s) =
     filter (\<lambda>img. image_id img \<noteq> imageId) (capturedImages s) \<and>
   (img \<in> set (capturedImages s) \<and> image_id img = imageId \<and>
    distinct (map image_id (capturedImages s)) \<longrightarrow>
      length (capturedImages (removeImage imageId s)) + 1 = length (capturedImages s) \<and>
      set (capturedImages (removeImage imageId s)) = set (capturedImages s) - {img}) \<and>
   objectURLs (removeImage imageId s) = objectURLs s"
proof (intro conjI impI)
  show "removeImage imageId s =
     s\<lparr>capturedImages := filter (\<lambda>img. image_id img \<noteq> imageId) (capturedImages s)\<rparr>"
    by (simp add: removeImage_def)
next
  assume "imageId \<notin> image_id ` set (capturedImages s)"
  then show "removeImage imageId s = s"
    and "capturedImages (removeImage imageId s) = capturedImages s"
    by (simp_all add: removeImage_def filter_absent_id)
next
  show "capturedImages (removeImage imageId s) =
     filter (\<lambda>img. image_id img \<noteq> imageId) (capturedImages s)"
    by (simp add: removeImage_def)
next
  assume a: "img \<in> set (capturedImages s) \<and> image_id img = imageId \<and>
    distinct (map image_id (capturedImages s))"
  then have d: "distinct (map image_id (capturedImages s))" and m: "img \<in> set (capturedImages s)"
    and i: "imageId = image_id img"
    by simp_all
  show "length (capturedImages (removeImage imageId s)) + 1 = length (capturedImages s)"
    unfolding i using filter_other_ids(1) [OF d m] by (simp add: removeImage_def)
  show "set (capturedImages (removeImage imageId s)) = set (capturedImages s) - {img}"
    unfolding i using filter_other_ids(2) [OF d m] by (simp add: removeImage_def)
next
  show "objectURLs (removeImage imageId s) = objectURLs s"
    by (simp add: removeImage_def)
qed

theorem removeImage_semantics_witness:
  "capturedImages (removeImage 1000 two_images) =
     [\<lparr>image_id = 1001, blob = ''jpeg'', url = ''blob:1''\<rparr>] \<and>
   length (capturedImages (removeImage 1000 two_images)) + 1 = length (capturedImages two_images) \<and>
   capturedImages (removeImage 7 two_images) = capturedImages two_images \<and>
   removeImage 7 two_images = two_images \<and>
   userId_reg (removeImage 1000 two_images) = ''u1''"
proof -
  let ?img = "\<lparr>image_id = 1000, blob = ''jpeg'', url = ''blob:0''\<rparr>"
  have pre: "?img \<in> set (capturedImages two_images) \<and> image_id ?img = 1000 \<and>
      distinct (map image_id (capturedImages two_images))"
    by (simp add: two_images_facts)
  have absent: "7 \<notin> image_id ` set (capturedImages two_images)"
    by (simp add: two_images_facts)
  from removeImage_semantics [of 1000 two_images ?img] pre
  have 1: "length (capturedImages (removeImage 1000 two_images)) + 1 = length (capturedImages two_images)"
    by blast
  from removeImage_semantics [of 1000 two_images ?img]
  have "capturedImages (removeImage 1000 two_images) =
     filter (\<lambda>img. image_id img \<noteq> 1000) (capturedImages two_images)"
    by blast
  then have 2: "capturedImages (removeImage 1000 two_images) =
     [\<lparr>image_id = 1001, blob = ''jpeg'', url = ''blob:1''\<rparr>]"
    by (simp add: two_images_facts)
  from removeImage_semantics [of 7 two_images ?img] absent
  have 3: "capturedImages (removeImage 7 two_images) = capturedImages two_images"
    and 4: "removeImage 7 two_images = two_images"
    by blast+
  from removeImage_semantics [of 1000 two_images ?img]
  have "removeImage 1000 two_images =
     two_images\<lparr>capturedImages := filter (\<lambda>img. image_id img \<noteq> 1000) (capturedImages two_images)\<rparr>"
    by blast
  then have 5: "userId_reg (removeImage 1000 two_images) = ''u1''"
    by (simp add: two_images_facts)
  from 2 1 3 4 5 show ?thesis
    by (intro conjI)
qed

text \<open>
  C7 as stated fails. Removing the only pending image leaves its preview URL allocated. And
  when two captures are in progress together and their callbacks read the same millisecond from
  the clock, both images carry the same id, and removing that id removes both.
\<close>

theorem removeImage_counterexample:
  "capturedImages (run_reg (captures 1) mounted) =
     [\<lparr>image_id = 1000, blob = ''jpeg'', url = ''blob:0''\<rparr>] \<and>
   capturedImages (removeImage 1000 (run_reg (captures 1) mounted)) = [] \<and>
   objectURLs (removeImage 1000 (run_reg (captures 1) mounted)) = [''blob:0''] \<and>
   length (capturedImages same_millisecond) = 2 \<and>
   capturedImages (removeImage 2000 same_millisecond) = []"
  by code_simp

lemma captureImage_at_cap:
  assumes "length (capturedImages s) \<ge> 10"
  shows "captureImage context s =
           s\<lparr>message_reg := \<lparr>msg_text = ''Maximum number of images (10) reached'',
                               msg_type = ErrorMsg\<rparr>\<rparr>"
  using assms by (simp add: captureImage_def)

text \<open>
  C6 on the code. The cap is checked when \<open>captureImage\<close> is called, against the list as it
  is then, and not again when the \<open>toBlob\<close> callback appends the image. With nine pending
  images, the camera loaded and nothing loading (so the capture button is enabled), two calls
  of \<open>captureImage\<close> that both come before the first callback both pass the check, and the
  two callbacks bring the list to eleven images.
\<close>

theorem capture_cap_exceeded:
  "length (capturedImages nine_images) = 9 \<and> stremLoaded nine_images \<and>
   \<not> isLoading nine_images \<and>
   length (capturedImages
     (run_reg [CaptureImage True, CaptureImage True,
               ToBlobDone (Some ''jpeg'') 2000, ToBlobDone (Some ''jpeg'') 2001] nine_images)) = 11"
  by code_simp

section \<open>The single camera stream\<close>

lemma stopTracks_nth:
  "k < length store \<Longrightarrow>
     stopTracks h store ! k = (if k = h then map (\<lambda>track. False) (store ! h) else store ! k)"
  by (simp add: stopTracks_def nth_list_update)

lemma stopped_inactive: "\<not> stream_active (map (\<lambda>track. False) tracks)"
  by (auto simp: stream_active_def)

lemma stopCamera_fields:
  "streams (stopCamera s) =
     (case streamRef s of Some h \<Rightarrow> stopTracks h (streams s) | None \<Rightarrow> streams s)"
  "streamRef (stopCamera s) = None"
  "videoRef (stopCamera s) = (case videoRef s of Some src \<Rightarrow> Some None | None \<Rightarrow> None)"
  by (simp_all add: stopCamera_def Let_def split: option.splits)

lemma stopCamera_reg_fields:
  "streams_reg (stopCamera_reg s) =
     (case videoStreamRef s of Some h \<Rightarrow> stopTracks h (streams_reg s) | None \<Rightarrow> streams_reg s)"
  "videoStreamRef (stopCamera_reg s) = videoStreamRef s"
  "videoRef_reg (stopCamera_reg s) = (case videoRef_reg s of Some src \<Rightarrow> Some None | None \<Rightarrow> None)"
  by (simp_all add: stopCamera_reg_def Let_def split: option.splits)

text \<open>
  What holds of the claim: a stop halts every track of the stream that is held at that
  moment and clears the binding of the video element, in both views, and in the registration
  view the part of \<open>startCamera\<close> before its suspension stops every track of the stream
  held then.
\<close>

lemma stop_halts_held_stream:
  assumes "streamRef a = Some k" "k < length (streams a)"
  shows "\<not> stream_active (streams (stopCamera a) ! k)"
    and "streamRef (stopCamera a) = None"
    and "\<forall>src. videoRef (stopCamera a) \<noteq> Some (Some src)"
  using assms
  by (simp_all add: stopCamera_fields stopTracks_nth stopped_inactive split: option.splits)

lemma stop_halts_held_stream_reg:
  assumes "videoStreamRef s = Some h" "h < length (streams_reg s)"
  shows "\<not> stream_active (streams_reg (stopCamera_reg s) ! h)"
    and "\<forall>src. videoRef_reg (stopCamera_reg s) \<noteq> Some (Some src)"
  using assms
  by (simp_all add: stopCamera_reg_fields stopTracks_nth stopped_inactive split: option.splits)

lemma start_stops_held_stream_reg:
  assumes "videoStreamRef s = Some h" "h < length (streams_reg s)"
  shows "\<not> stream_active (streams_reg (startCamera_reg_begin s) ! h)"
  using assms stop_halts_held_stream_reg(1) [OF assms]
  by (simp add: startCamera_reg_begin_def Let_def)

text \<open>
  C2 on the code. A stream that arrives after the moment at which its predecessor would have
  been stopped is never stopped.

  Attendance view: Start is pressed and Stop is pressed during the 100 ms pause; nothing is
  held yet, so the stop releases nothing. The suspended \<open>startAttendance\<close> goes on, stores
  stream 0 and arms timer 1 although the poller is no longer capturing. A second Start
  passes the guard, and \<open>startCamera\<close>, which does not stop a held stream, overwrites the
  handle with stream 1; the first frame then arms timer 2. Streams 0 and 1 are both live and
  both timers are armed, and the next Stop releases only stream 1 and timer 2.

  Registration view: with the camera running, the switch-camera button is pressed twice before
  the first of the two camera requests is answered. Each \<open>startCamera\<close> stops stream 0
  before it suspends; the two answers store streams 1 and 2 one after the other, and stream 1
  stays live with no handle left that points to it.
\<close>

theorem single_stream_violated:
  "active_streams (streams (run stop_during_pause initial)) = [0, 1] \<and>
   streamRef (run stop_during_pause initial) = Some 1 \<and>
   timers (run stop_during_pause initial) = [2, 1] \<and>
   active_streams (streams (run (stop_during_pause @ [StopAttendance]) initial)) = [0] \<and>
   streamRef (run (stop_during_pause @ [StopAttendance]) initial) = None \<and>
   timers (run (stop_during_pause @ [StopAttendance]) initial) = [1] \<and>
   active_streams (streams_reg (run_reg [Mount, CameraSettled (Inr 1)] initial_reg)) = [0] \<and>
   active_streams (streams_reg (run_reg double_toggle initial_reg)) = [1, 2] \<and>
   videoStreamRef (run_reg double_toggle initial_reg) = Some 2"
  by code_simp

end
